theory Spec2Isabelle
  imports Main
begin

section \<open>The application registry of \<^verbatim>\<open>src/core/application.ts\<close>\<close>

text \<open>
  The file declares the kinds of application (\<^verbatim>\<open>AppTypes\<close>), the lookup of a kind's
  class (\<^verbatim>\<open>findClassModule\<close>), the error value \<^verbatim>\<open>ApplicationError\<close> with its
  rendering, and the namespace \<^verbatim>\<open>container\<close>: a workspace location, a cache of live
  handles, and the operations that create handles and reconcile the cache with the
  persisted configuration. The namespace's two variables become a record that every
  operation takes and returns; what an operation throws is the \<open>Inl\<close> of its result.
\<close>

subsection \<open>Data\<close>

datatype AppTypes = TOMCAT | SPRING_BOOT

text \<open>A property value has the TypeScript type \<^verbatim>\<open>any\<close>; numbers and strings are kept.\<close>

datatype PropValue = NumV int | StrV string

text \<open>
  \<^verbatim>\<open>changeable\<close> is only ever read as \<^verbatim>\<open>!!pv.changeable\<close>, so a missing flag is
  \<open>False\<close>.
\<close>

record Property =
  key :: string
  pvalue :: PropValue
  changeable :: bool

text \<open>
  \<^verbatim>\<open>ConfigApplication\<close>, a persisted record. The fields \<^verbatim>\<open>id\<close> and \<^verbatim>\<open>type\<close> are
  \<open>app_id\<close> and \<open>app_type\<close> here. \<^verbatim>\<open>type\<close> is the string found in the file, not
  yet a kind.
\<close>

record ConfigApplication =
  app_id :: string
  app_type :: string
  appPath :: string
  properties :: "Property list"

text \<open>
  A \<^verbatim>\<open>Uri\<close> is an object of the host; only its identity matters here. As an object
  it is truthy whatever it holds, so the only falsy state of the variable \<^verbatim>\<open>uri\<close> is
  the one before \<^verbatim>\<open>initialize\<close>: \<open>None\<close>.
\<close>

type_synonym Uri = string

record ApplicationError =
  msg :: string
  code :: "string option"

definition FatalFailure :: string where "FatalFailure = ''E_AP_FAIL''"
definition NotReady :: string where "NotReady = ''E_AP_NTRY''"
definition NotFound :: string where "NotFound = ''E_AP_NTFN''"
definition NotFoundTargetDeploy :: string where "NotFoundTargetDeploy = ''E_AP_NFTD''"
definition NotMatchConfDeploy :: string where "NotMatchConfDeploy = ''E_AP_NMSC''"
definition NotFoundWorkspace :: string where "NotFoundWorkspace = ''E_AP_NFWS''"
definition NoValidAppType :: string where "NoValidAppType = ''E_AP_NVAT''"
definition NotAvailablePort :: string where "NotAvailablePort = ''E_AP_NAVP''"
definition InaccessibleResources :: string where "InaccessibleResources = ''E_AP_IACR''"
definition InvalidInternalResource :: string where "InvalidInternalResource = ''E_AP_IVIR''"

text \<open>\<^verbatim>\<open>new ApplicationError(m)\<close>: the second argument is left out, so \<^verbatim>\<open>code\<close> is undefined.\<close>

definition new_ApplicationError :: "string \<Rightarrow> ApplicationError" where
  "new_ApplicationError m = \<lparr>msg = m, code = None\<rparr>"

subsection \<open>Rendering an error\<close>

text \<open>
  \<^verbatim>\<open>existsCode\<close> and \<^verbatim>\<open>getMessage\<close> come from the module \<^verbatim>\<open>messages\<close>, which is not
  among the sources of this development; they are parameters. The method reads the fields
  \<^verbatim>\<open>msg\<close> and \<^verbatim>\<open>code\<close> and nothing else of the object. The test \<^verbatim>\<open>this.code && ...\<close> is
  JavaScript truthiness: an undefined code and the empty string both fail it.
\<close>

definition toString ::
    "(string \<Rightarrow> bool) \<Rightarrow> (string \<Rightarrow> string) \<Rightarrow> 'a ApplicationError_scheme \<Rightarrow> string" where
  "toString existsCode getMessage e =
     (let otherwise = (if existsCode (msg e) then getMessage (msg e) else msg e)
      in case code e of
           None \<Rightarrow> otherwise
         | Some c \<Rightarrow>
             if c \<noteq> [] \<and> existsCode c
             then getMessage c @ (if msg e \<noteq> [] then '' ('' @ msg e @ '')'' else [])
             else otherwise)"

subsection \<open>Kinds and their classes\<close>

text \<open>
  \<^verbatim>\<open>AppTypes[config.type]\<close>: the enum object has exactly the own keys \<^verbatim>\<open>TOMCAT\<close> and
  \<^verbatim>\<open>SPRING_BOOT\<close>, each mapped to itself. Any other key yields a value that is none of
  the enum's strings (undefined, or something inherited from \<^verbatim>\<open>Object.prototype\<close>),
  which \<^verbatim>\<open>findClassModule\<close> sends to its default branch alike: \<open>None\<close>.
\<close>

definition AppTypes_index :: "string \<Rightarrow> string option" where
  "AppTypes_index k =
     (if k = ''TOMCAT'' then Some ''TOMCAT''
      else if k = ''SPRING_BOOT'' then Some ''SPRING_BOOT''
      else None)"

text \<open>
  \<^verbatim>\<open>findClassModule\<close> switches on the runtime value of its argument. The class it
  returns is named by its kind.
\<close>

definition findClassModule :: "string option \<Rightarrow> ApplicationError + AppTypes" where
  "findClassModule t =
     (if t = Some ''TOMCAT'' then Inr TOMCAT
      else if t = Some ''SPRING_BOOT'' then Inr SPRING_BOOT
      else Inl (new_ApplicationError NoValidAppType))"

definition AppTypes_tag :: "AppTypes \<Rightarrow> string" where
  "AppTypes_tag k = (case k of TOMCAT \<Rightarrow> ''TOMCAT'' | SPRING_BOOT \<Rightarrow> ''SPRING_BOOT'')"

subsection \<open>Handles\<close>

text \<open>
  Modelled from the spec: the classes behind a handle (\<^verbatim>\<open>ConfigurationAccessor\<close> in
  \<^verbatim>\<open>configuration.ts\<close>, \<^verbatim>\<open>Tomcat\<close> and \<^verbatim>\<open>SpringBoot\<close> in \<^verbatim>\<open>apps/\<close>) are not among
  the sources of this development. By the spec a handle is an object with one \<^verbatim>\<open>config\<close> field of
  type ApplicationConfig, bound at construction to the workspace location and an id,
  carrying the kind's default property set until a config is assigned;
  \<^verbatim>\<open>setConfig\<close> replaces the config, \<^verbatim>\<open>getProperties\<close> reads its properties and
  \<^verbatim>\<open>getId\<close> its id. The field \<open>inits\<close> is not in the program: it counts the calls
  of \<^verbatim>\<open>init()\<close> that succeeded on the object, so that theorems can speak about them.
\<close>

record handle =
  config :: ConfigApplication
  workspaceUri :: Uri
  htype :: AppTypes
  inits :: nat

definition getId :: "handle \<Rightarrow> string" where
  "getId h = app_id (config h)"

definition getProperties :: "handle \<Rightarrow> Property list" where
  "getProperties h = properties (config h)"

definition setConfig :: "ConfigApplication \<Rightarrow> handle \<Rightarrow> handle" where
  "setConfig c h = h\<lparr>config := c\<rparr>"

subsection \<open>The collaborators\<close>

text \<open>
  What the registry calls but does not own, for one call of an operation:
  \<^item> \<open>now\<close>: the value of \<^verbatim>\<open>Date.now()\<close>;
  \<^item> \<open>defaults\<close>: the property set a class of each kind gives a new object;
  \<^item> \<open>init_outcome\<close>: whether \<^verbatim>\<open>init()\<close> on a handle throws, and what (by the spec
    \<^verbatim>\<open>init\<close> prepares the internal state of the handle; the config it was given stays);
  \<^item> \<open>readConfigFile\<close>: the list \<^verbatim>\<open>accessor.readConfigFile()\<close> yields, or what it throws;
  \<^item> \<open>writeConfigApplication\<close>: whether the write-back throws, and what;
  \<^item> \<open>detach_settled\<close>: whether the promise \<^verbatim>\<open>accessor.detachConfigApplication(id)\<close>
    returns is already fulfilled when the callback of the prune pass awaits it (see
    below). A detach that waits for the file system, or that has an \<^verbatim>\<open>await\<close> of its
    own, returns a pending promise: \<open>False\<close>, also when the detach completes before line
    139 runs.
\<close>

record env =
  now :: nat
  defaults :: "AppTypes \<Rightarrow> Property list"
  init_outcome :: "handle \<Rightarrow> ApplicationError option"
  readConfigFile :: "ApplicationError + ConfigApplication list"
  writeConfigApplication :: "ConfigApplication list \<Rightarrow> ApplicationError option"
  detach_settled :: "string \<Rightarrow> bool"

text \<open>The calls made to the collaborators, in order: a log, not a variable of the program.\<close>

datatype event = Detach string | Init string | Write "ConfigApplication list"

text \<open>The namespace \<^verbatim>\<open>container\<close>: \<^verbatim>\<open>uri\<close>, \<^verbatim>\<open>_cache\<close>, and the log.\<close>

record container =
  uri :: "Uri option"
  cache :: "handle list"
  calls :: "event list"

text \<open>
  Modelled from the spec: \<^verbatim>\<open>new App(id, uri)\<close>, the constructor of a kind's class, is
  not among the sources of this development. It binds the new handle to the id and the workspace
  location and gives it the kind's default property set; nothing has called
  \<^verbatim>\<open>init()\<close> on it yet.
\<close>

definition new_App :: "env \<Rightarrow> AppTypes \<Rightarrow> string \<Rightarrow> Uri \<Rightarrow> handle" where
  "new_App e k i u =
     \<lparr>config = \<lparr>app_id = i, app_type = AppTypes_tag k, appPath = [], properties = defaults e k\<rparr>,
      workspaceUri = u, htype = k, inits = 0\<rparr>"

subsection \<open>The operations of the container\<close>

definition initialize :: "Uri \<Rightarrow> container \<Rightarrow> container" where
  "initialize u s = s\<lparr>uri := Some u\<rparr>"

definition reset :: "container \<Rightarrow> container" where
  "reset s = s\<lparr>cache := []\<rparr>"

text \<open>\<^verbatim>\<open>"App" + Date.now()\<close>: the decimal digits of the clock.\<close>

function show_nat :: "nat \<Rightarrow> string" where
  "show_nat n =
     (if n < 10 then [''0123456789'' ! n]
      else show_nat (n div 10) @ [''0123456789'' ! (n mod 10)])"
  by pat_completeness auto
termination
  by (relation "measure (\<lambda>n. n)") auto

declare show_nat.simps [simp del]

text \<open>
  \<^verbatim>\<open>createApplication(type, id?)\<close>. The id is optional, and \<^verbatim>\<open>id || ...\<close> replaces
  an undefined id and the empty string alike. The container is returned as it was.
\<close>

definition createApplication ::
    "env \<Rightarrow> string option \<Rightarrow> string option \<Rightarrow> container
      \<Rightarrow> (ApplicationError + handle) \<times> container" where
  "createApplication e t i s =
     (case uri s of
        None \<Rightarrow> (Inl (new_ApplicationError NotFoundWorkspace), s)
      | Some u \<Rightarrow>
          (let i' = (case i of
                       None \<Rightarrow> ''App'' @ show_nat (now e)
                     | Some x \<Rightarrow> if x = [] then ''App'' @ show_nat (now e) else x)
           in case findClassModule t of
                Inl err \<Rightarrow> (Inl err, s)
              | Inr k \<Rightarrow> (Inr (new_App e k i' u), s)))"

text \<open>
  Line 160, the merge: a template property is replaced when some persisted property
  has its key and is changeable, and then by the first persisted property
  with that key (\<^verbatim>\<open>find\<close>). The \<open>None\<close> branch stands for the \<^verbatim>\<open>!\<close> of the source
  and is never taken.
\<close>

definition merge_properties :: "Property list \<Rightarrow> Property list \<Rightarrow> Property list" where
  "merge_properties pure prev =
     map (\<lambda>p. if list_ex (\<lambda>pv. key pv = key p \<and> changeable pv) prev
              then (case find (\<lambda>pv. key pv = key p) prev of Some pv \<Rightarrow> pv | None \<Rightarrow> p)
              else p) pure"

text \<open>
  \<^verbatim>\<open>_initializeApplication(config)\<close>: construct, keep the template, assign the
  config, merge, \<^verbatim>\<open>init()\<close>. What \<^verbatim>\<open>createApplication\<close> or \<^verbatim>\<open>init\<close> throws leaves
  the function.
\<close>

definition initializeApplication ::
    "env \<Rightarrow> ConfigApplication \<Rightarrow> container \<Rightarrow> (ApplicationError + handle) \<times> container" where
  "initializeApplication e cfg s =
     (case createApplication e (AppTypes_index (app_type cfg)) (Some (app_id cfg)) s of
        (Inl err, s1) \<Rightarrow> (Inl err, s1)
      | (Inr app, s1) \<Rightarrow>
          (let pure = getProperties app;
               app1 = setConfig cfg app;
               prev = properties cfg;
               app2 = app1\<lparr>config := (config app1)\<lparr>properties := merge_properties pure prev\<rparr>\<rparr>;
               s2 = s1\<lparr>calls := calls s1 @ [Init (getId app2)]\<rparr>
           in case init_outcome e app2 of
                Some err \<Rightarrow> (Inl err, s2)
              | None \<Rightarrow> (Inr (app2\<lparr>inits := Suc (inits app2)\<rparr>), s2)))"

text \<open>
  The loop of lines 145 to 147: each result is awaited before the next record is
  taken, and there is no handler around it, so the first failure ends the loop.
\<close>

fun initializeAll ::
    "env \<Rightarrow> ConfigApplication list \<Rightarrow> handle list \<Rightarrow> container
      \<Rightarrow> (ApplicationError + handle list) \<times> container" where
  "initializeAll e [] apps s = (Inr apps, s)"
| "initializeAll e (c # cs) apps s =
     (case initializeApplication e c s of
        (Inl err, s1) \<Rightarrow> (Inl err, s1)
      | (Inr app, s1) \<Rightarrow> initializeAll e cs (apps @ [app]) s1)"

text \<open>
  \<^verbatim>\<open>setAppsToContainer\<close>: \<open>update_first\<close> is \<^verbatim>\<open>_cache.find(...)\<close> followed by the
  \<^verbatim>\<open>setConfig\<close> on what it found; \<open>setApp\<close> is the body of the \<^verbatim>\<open>forEach\<close>.
\<close>

fun update_first :: "('a \<Rightarrow> bool) \<Rightarrow> ('a \<Rightarrow> 'a) \<Rightarrow> 'a list \<Rightarrow> 'a list" where
  "update_first P f [] = []"
| "update_first P f (x # xs) = (if P x then f x # xs else x # update_first P f xs)"

definition setApp :: "handle list \<Rightarrow> handle \<Rightarrow> handle list" where
  "setApp c app =
     (if list_ex (\<lambda>a. getId a = getId app) c
      then update_first (\<lambda>a. getId a = getId app) (setConfig (config app)) c
      else c @ [app])"

definition setAppsToContainer :: "handle list \<Rightarrow> container \<Rightarrow> handle list \<times> container" where
  "setAppsToContainer apps s =
     (let c = foldl setApp (cache s) apps in (c, s\<lparr>cache := c\<rparr>))"

definition getApplication :: "string \<Rightarrow> container \<Rightarrow> handle option" where
  "getApplication i s = find (\<lambda>a. getId a = i) (cache s)"

definition getApplications :: "container \<Rightarrow> handle list" where
  "getApplications s = cache s"

text \<open>
  The prune pass, lines 131 to 138. \<^verbatim>\<open>forEach\<close> calls its callback for every element
  and discards the promises the async callback returns, and the \<^verbatim>\<open>await\<close> in front of
  \<^verbatim>\<open>forEach\<close> waits for \<^verbatim>\<open>undefined\<close>. Each callback therefore runs up to its own
  \<^verbatim>\<open>await\<close>: for every record without \<^verbatim>\<open>appPath\<close>, in order, the detach is requested
  before \<^verbatim>\<open>forEach\<close> returns. The assignment \<^verbatim>\<open>config.apps[i] = undefined\<close> is the
  callback's continuation. It has run when line 139 reads \<^verbatim>\<open>config.apps\<close> only if the
  promise of the detach was already fulfilled when the callback awaited it
  (\<open>detach_settled\<close>); a detach that is still pending then, as one that waits for the
  file system is, or that fails, leaves the element in place, and the later assignment
  changes an array that line 139 has already copied. Nothing a detach throws reaches
  \<^verbatim>\<open>loadFromConfigurations\<close>: it rejects the discarded promise of the callback. The slots
  of \<^verbatim>\<open>config.apps\<close> as line 139 finds them are \<open>prune\<close>; \<open>None\<close> is \<^verbatim>\<open>undefined\<close>.
\<close>

definition detach_requests :: "ConfigApplication list \<Rightarrow> event list" where
  "detach_requests apps = map (\<lambda>app. Detach (app_id app)) (filter (\<lambda>app. appPath app = []) apps)"

definition prune :: "env \<Rightarrow> ConfigApplication list \<Rightarrow> ConfigApplication option list" where
  "prune e apps =
     map (\<lambda>app. if appPath app = [] \<and> detach_settled e (app_id app) then None else Some app) apps"

text \<open>Lines 139 to 141: the two filters.\<close>

definition appConfigs :: "ConfigApplication option list \<Rightarrow> handle list \<Rightarrow> ConfigApplication list" where
  "appConfigs slots c =
     filter (\<lambda>app. \<not> list_ex (\<lambda>loaded. getId loaded = app_id app) c)
       (List.map_filter (\<lambda>slot. slot) slots)"

definition loadFromConfigurations ::
    "env \<Rightarrow> bool \<Rightarrow> container \<Rightarrow> (ApplicationError + unit) \<times> container" where
  "loadFromConfigurations e exactly s =
     (case readConfigFile e of
        Inl err \<Rightarrow> (Inl err, s)
      | Inr apps \<Rightarrow>
          (let s1 = (if exactly then s\<lparr>cache := []\<rparr> else s);
               (slots, s2) =
                 (if list_ex (\<lambda>app. appPath app = []) apps
                  then (prune e apps, s1\<lparr>calls := calls s1 @ detach_requests apps\<rparr>)
                  else (map Some apps, s1))
           in case initializeAll e (appConfigs slots (cache s2)) [] s2 of
                (Inl err, s3) \<Rightarrow> (Inl err, s3)
              | (Inr apps', s3) \<Rightarrow>
                  (let s4 = s3\<lparr>calls := calls s3 @ [Write (map config apps')]\<rparr>
                   in case writeConfigApplication e (map config apps') of
                        Some err \<Rightarrow> (Inl err, s4)
                      | None \<Rightarrow> (Inr (), snd (setAppsToContainer apps' s4)))))"

subsection \<open>Sequences of operations\<close>

text \<open>
  The operations the namespace exports, with their arguments and, where an operation
  calls a collaborator, what the collaborators answer during that call. \<open>run_op\<close> is
  the effect of one call on the container, whatever it returns or throws.
\<close>

datatype op =
    OpInitialize Uri
  | OpReset
  | OpCreateApplication env "string option" "string option"
  | OpLoadFromConfigurations env bool
  | OpSetAppsToContainer "handle list"
  | OpGetApplication string
  | OpGetApplications

fun run_op :: "container \<Rightarrow> op \<Rightarrow> container" where
  "run_op s (OpInitialize u) = initialize u s"
| "run_op s OpReset = reset s"
| "run_op s (OpCreateApplication e t i) = snd (createApplication e t i s)"
| "run_op s (OpLoadFromConfigurations e exactly) = snd (loadFromConfigurations e exactly s)"
| "run_op s (OpSetAppsToContainer apps) = snd (setAppsToContainer apps s)"
| "run_op s (OpGetApplication i) = s"
| "run_op s OpGetApplications = s"

definition run_ops :: "container \<Rightarrow> op list \<Rightarrow> container" where
  "run_ops s ops = foldl run_op s ops"

subsection \<open>Concrete inputs\<close>

text \<open>
  A kind whose template is one changeable property \<^verbatim>\<open>port = 8080\<close>, records of kind
  \<^verbatim>\<open>TOMCAT\<close>, collaborators whose \<^verbatim>\<open>init()\<close> fails exactly on the ids listed, and a
  container whose workspace is set.
\<close>

definition ex_port :: "int \<Rightarrow> bool \<Rightarrow> Property" where
  "ex_port v ch = \<lparr>key = ''port'', pvalue = NumV v, changeable = ch\<rparr>"

definition ex_defaults :: "AppTypes \<Rightarrow> Property list" where
  "ex_defaults k = [ex_port 8080 True]"

definition ex_config :: "string \<Rightarrow> string \<Rightarrow> Property list \<Rightarrow> ConfigApplication" where
  "ex_config i p props = \<lparr>app_id = i, app_type = ''TOMCAT'', appPath = p, properties = props\<rparr>"

definition ex_env :: "ConfigApplication list \<Rightarrow> string list \<Rightarrow> bool \<Rightarrow> env" where
  "ex_env apps failing settled =
     \<lparr>now = 5, defaults = ex_defaults,
      init_outcome = (\<lambda>h. if getId h \<in> set failing then Some (new_ApplicationError NotReady) else None),
      readConfigFile = Inr apps,
      writeConfigApplication = (\<lambda>cs. None),
      detach_settled = (\<lambda>i. settled)\<rparr>"

definition ex_env_unreadable :: env where
  "ex_env_unreadable = (ex_env [] [] True)\<lparr>readConfigFile := Inl (new_ApplicationError InaccessibleResources)\<rparr>"

definition ex_handle :: "string \<Rightarrow> int \<Rightarrow> handle" where
  "ex_handle i v =
     \<lparr>config = ex_config i ''/srv'' [ex_port v True], workspaceUri = ''/ws'', htype = TOMCAT, inits = 1\<rparr>"

definition ex_container :: "handle list \<Rightarrow> container" where
  "ex_container c = \<lparr>uri = Some ''/ws'', cache = c, calls = []\<rparr>"

section \<open>Properties\<close>

subsection \<open>Auxiliary facts\<close>

lemma show_nat_digit: "n < 10 \<Longrightarrow> show_nat n = [''0123456789'' ! n]"
  by (simp add: show_nat.simps)

text \<open>Construction and the merge of one record.\<close>

lemma createApplication_frame: "snd (createApplication e t i s) = s"
  by (simp add: createApplication_def Let_def split: option.splits sum.splits)

lemma findClassModule_Inr_iff: "findClassModule t = Inr k \<longleftrightarrow> t = Some (AppTypes_tag k)"
  by (cases k) (auto simp: findClassModule_def AppTypes_tag_def)

lemma find_Some_of_ex:
  "list_ex (\<lambda>pv. key pv = k \<and> changeable pv) prev \<Longrightarrow>
     \<exists>pv. find (\<lambda>pv. key pv = k) prev = Some pv \<and> pv \<in> set prev \<and> key pv = k"
  by (induction prev) (auto simp: list_ex_iff)

lemma merge_properties_eq:
  "merge_properties pure prev =
     map (\<lambda>p. if (\<exists>pv\<in>set prev. key pv = key p \<and> changeable pv)
              then the (find (\<lambda>pv. key pv = key p) prev) else p) pure"
proof -
  have "(if list_ex (\<lambda>pv. key pv = key p \<and> changeable pv) prev
         then (case find (\<lambda>pv. key pv = key p) prev of Some pv \<Rightarrow> pv | None \<Rightarrow> p) else p)
      = (if (\<exists>pv\<in>set prev. key pv = key p \<and> changeable pv)
         then the (find (\<lambda>pv. key pv = key p) prev) else p)" for p
  proof (cases "list_ex (\<lambda>pv. key pv = key p \<and> changeable pv) prev")
    case True
    from find_Some_of_ex[OF True] obtain pv where "find (\<lambda>pv. key pv = key p) prev = Some pv"
      by blast
    with True show ?thesis by (simp add: list_ex_iff)
  next
    case False
    then show ?thesis by (auto simp: list_ex_iff)
  qed
  then show ?thesis by (simp add: merge_properties_def)
qed

lemma initializeApplication_Inr:
  assumes "initializeApplication e cfg s = (Inr app, s')"
  shows "\<exists>u k. uri s = Some u \<and> findClassModule (AppTypes_index (app_type cfg)) = Inr k \<and>
           init_outcome e \<lparr>config = cfg\<lparr>properties := merge_properties (defaults e k) (properties cfg)\<rparr>,
                            workspaceUri = u, htype = k, inits = 0\<rparr> = None \<and>
           app = \<lparr>config = cfg\<lparr>properties := merge_properties (defaults e k) (properties cfg)\<rparr>,
                  workspaceUri = u, htype = k, inits = Suc 0\<rparr> \<and>
           s' = s\<lparr>calls := calls s @ [Init (app_id cfg)]\<rparr>"
  using assms
  by (auto simp: initializeApplication_def createApplication_def Let_def new_App_def
        getProperties_def setConfig_def getId_def split: option.splits sum.splits if_splits)

lemma initializeApplication_frame:
  assumes "initializeApplication e cfg s = (r, s')"
  shows "uri s' = uri s \<and> cache s' = cache s \<and>
         (\<exists>evs. calls s' = calls s @ evs \<and> set evs \<subseteq> {Init (app_id cfg)} \<and> (\<forall>x. r = Inr x \<longrightarrow> evs = [Init (app_id cfg)]))"
  using assms
  by (auto simp: initializeApplication_def createApplication_def Let_def new_App_def
        getProperties_def setConfig_def getId_def split: option.splits sum.splits if_splits)

lemma initializeApplication_fst_uri:
  "uri s = uri t \<Longrightarrow> fst (initializeApplication e cfg s) = fst (initializeApplication e cfg t)"
  by (auto simp: initializeApplication_def createApplication_def Let_def new_App_def
        getProperties_def setConfig_def getId_def split: option.splits sum.splits if_splits)


text \<open>The upsert: ids, positions, and what an entry keeps.\<close>

lemma update_first_map:
  "(\<And>x. P x \<Longrightarrow> g (f x) = g x) \<Longrightarrow> map g (update_first P f xs) = map g xs"
  by (induction xs) auto

lemma length_update_first: "length (update_first P f xs) = length xs"
  by (induction xs) auto

lemma update_first_nth:
  "i < length xs \<Longrightarrow> update_first P f xs ! i = xs ! i \<or> (P (xs ! i) \<and> update_first P f xs ! i = f (xs ! i))"
proof (induction xs arbitrary: i)
  case Nil then show ?case by simp
next
  case (Cons x xs) then show ?case by (cases i) auto
qed

lemma setApp_ids:
  "map getId (setApp c app) =
     (if getId app \<in> set (map getId c) then map getId c else map getId c @ [getId app])"
proof -
  have "map getId (update_first (\<lambda>a. getId a = getId app) (setConfig (config app)) c) = map getId c"
    by (rule update_first_map) (simp add: getId_def setConfig_def)
  then show ?thesis by (auto simp: setApp_def list_ex_iff intro: rev_image_eqI)
qed

lemma setApp_distinct: "distinct (map getId c) \<Longrightarrow> distinct (map getId (setApp c app))"
  by (simp add: setApp_ids)

lemma foldl_setApp_distinct:
  "distinct (map getId c) \<Longrightarrow> distinct (map getId (foldl setApp c apps))"
  by (induction apps arbitrary: c) (simp_all add: setApp_distinct)

lemma foldl_setApp_ids:
  "set (map getId (foldl setApp c apps)) = set (map getId c) \<union> set (map getId apps)"
proof (induction apps arbitrary: c)
  case Nil then show ?case by simp
next
  case (Cons a apps)
  have "set (map getId (setApp c a)) = insert (getId a) (set (map getId c))"
    by (auto simp: setApp_ids)
  with Cons show ?case by simp
qed

lemma setApp_length: "length c \<le> length (setApp c app)"
  by (simp add: setApp_def length_update_first)

lemma setApp_nth:
  assumes "i < length c"
  shows "workspaceUri (setApp c app ! i) = workspaceUri (c ! i) \<and> htype (setApp c app ! i) = htype (c ! i)
       \<and> inits (setApp c app ! i) = inits (c ! i) \<and> getId (setApp c app ! i) = getId (c ! i)"
proof (cases "list_ex (\<lambda>a. getId a = getId app) c")
  case True
  from update_first_nth[OF assms, of "\<lambda>a. getId a = getId app" "setConfig (config app)"]
  show ?thesis using True by (auto simp: setApp_def setConfig_def getId_def)
next
  case False
  then show ?thesis using assms by (simp add: setApp_def nth_append)
qed

lemma foldl_setApp_length: "length c \<le> length (foldl setApp c apps)"
proof (induction apps arbitrary: c)
  case Nil then show ?case by simp
next
  case (Cons a apps)
  have "length c \<le> length (setApp c a)" by (rule setApp_length)
  also have "\<dots> \<le> length (foldl setApp (setApp c a) apps)" by (rule Cons.IH)
  finally show ?case by simp
qed

lemma foldl_setApp_nth:
  "i < length c \<Longrightarrow>
     workspaceUri (foldl setApp c apps ! i) = workspaceUri (c ! i) \<and>
     htype (foldl setApp c apps ! i) = htype (c ! i) \<and>
     inits (foldl setApp c apps ! i) = inits (c ! i) \<and>
     getId (foldl setApp c apps ! i) = getId (c ! i)"
proof (induction apps arbitrary: c)
  case Nil then show ?case by simp
next
  case (Cons a apps)
  have i: "i < length (setApp c a)" using Cons.prems setApp_length[of c a] by simp
  from Cons.IH[OF i] setApp_nth[OF Cons.prems, of a]
  show ?case by simp
qed


text \<open>The loop over the selected records.\<close>

lemma initializeAll_Inr:
  "initializeAll e cs acc s = (Inr hs, s') \<Longrightarrow>
     map getId hs = map getId acc @ map app_id cs \<and>
     uri s' = uri s \<and> cache s' = cache s \<and>
     calls s' = calls s @ map (\<lambda>c. Init (app_id c)) cs"
proof (induction cs arbitrary: acc s)
  case Nil then show ?case by simp
next
  case (Cons c cs)
  obtain r s1 where step: "initializeApplication e c s = (r, s1)" by (cases "initializeApplication e c s")
  with Cons.prems obtain app where r: "r = Inr app" by (cases r) auto
  from step r Cons.prems have rest: "initializeAll e cs (acc @ [app]) s1 = (Inr hs, s')" by simp
  from initializeApplication_Inr[OF step[unfolded r]]
  have app: "getId app = app_id c" and s1: "s1 = s\<lparr>calls := calls s @ [Init (app_id c)]\<rparr>"
    by (auto simp: getId_def)
  from Cons.IH[OF rest] app s1 show ?case by simp
qed

lemma initializeAll_fst_uri:
  "uri s = uri t \<Longrightarrow> fst (initializeAll e cs acc s) = fst (initializeAll e cs acc t)"
proof (induction cs arbitrary: acc s t)
  case Nil then show ?case by simp
next
  case (Cons c cs)
  obtain r s1 where a: "initializeApplication e c s = (r, s1)" by (cases "initializeApplication e c s")
  obtain r' t1 where b: "initializeApplication e c t = (r', t1)" by (cases "initializeApplication e c t")
  from initializeApplication_fst_uri[OF Cons.prems, of e c] a b have rr: "r' = r" by simp
  from initializeApplication_frame[OF a] initializeApplication_frame[OF b] Cons.prems
  have u: "uri s1 = uri t1" by simp
  show ?case
  proof (cases r)
    case (Inl err) with a b rr show ?thesis by simp
  next
    case (Inr app) with a b rr Cons.IH[OF u] show ?thesis by simp
  qed
qed

lemma initializeAll_Inl:
  "initializeAll e cs acc s = (Inl err, s') \<Longrightarrow>
     uri s' = uri s \<and> cache s' = cache s \<and>
     (\<exists>pre c post evs. cs = pre @ c # post \<and>
        calls s' = calls s @ map (\<lambda>c. Init (app_id c)) pre @ evs \<and> set evs \<subseteq> {Init (app_id c)})"
proof (induction cs arbitrary: acc s)
  case Nil then show ?case by simp
next
  case (Cons c cs)
  obtain r s1 where step: "initializeApplication e c s = (r, s1)" by (cases "initializeApplication e c s")
  note fr = initializeApplication_frame[OF step]
  show ?case
  proof (cases r)
    case (Inl err')
    with step Cons.prems have "s' = s1" by simp
    with fr obtain evs where "calls s' = calls s @ evs" "set evs \<subseteq> {Init (app_id c)}"
      and "uri s' = uri s" "cache s' = cache s" by blast
    then have "c # cs = [] @ c # cs \<and> calls s' = calls s @ map (\<lambda>c. Init (app_id c)) [] @ evs
        \<and> set evs \<subseteq> {Init (app_id c)}" by simp
    with \<open>uri s' = uri s\<close> \<open>cache s' = cache s\<close> show ?thesis by blast
  next
    case (Inr app)
    with step Cons.prems have rest: "initializeAll e cs (acc @ [app]) s1 = (Inl err, s')" by simp
    from fr Inr have s1: "uri s1 = uri s" "cache s1 = cache s" "calls s1 = calls s @ [Init (app_id c)]"
      by auto
    from Cons.IH[OF rest] obtain pre d post evs where
      d: "cs = pre @ d # post" "calls s' = calls s1 @ map (\<lambda>c. Init (app_id c)) pre @ evs"
         "set evs \<subseteq> {Init (app_id d)}" and u: "uri s' = uri s1" "cache s' = cache s1" by blast
    from d s1 have "c # cs = (c # pre) @ d # post \<and>
        calls s' = calls s @ map (\<lambda>c. Init (app_id c)) (c # pre) @ evs \<and> set evs \<subseteq> {Init (app_id d)}"
      by simp
    with u s1 show ?thesis by (metis (no_types, lifting))
  qed
qed

lemma initializeAll_first_failure:
  assumes "\<forall>c'\<in>set pre. \<exists>h. fst (initializeApplication e c' s) = Inr h"
    and "fst (initializeApplication e c s) = Inl err"
  shows "\<exists>s' evs. initializeAll e (pre @ c # post) acc s = (Inl err, s') \<and>
           uri s' = uri s \<and> cache s' = cache s \<and>
           calls s' = calls s @ map (\<lambda>c. Init (app_id c)) pre @ evs \<and> set evs \<subseteq> {Init (app_id c)}"
  using assms
proof (induction pre arbitrary: acc s)
  case Nil
  obtain r s1 where step: "initializeApplication e c s = (r, s1)" by (cases "initializeApplication e c s")
  with Nil have r: "r = Inl err" by simp
  from initializeApplication_frame[OF step] step r show ?case by auto
next
  case (Cons d pre)
  obtain r s1 where step: "initializeApplication e d s = (r, s1)" by (cases "initializeApplication e d s")
  with Cons.prems obtain h where r: "r = Inr h" by auto
  from initializeApplication_frame[OF step] r
  have s1: "uri s1 = uri s" "cache s1 = cache s" "calls s1 = calls s @ [Init (app_id d)]" by auto
  have 1: "\<forall>c'\<in>set pre. \<exists>h. fst (initializeApplication e c' s1) = Inr h"
    using Cons.prems(1) initializeApplication_fst_uri[OF s1(1), of e] by simp
  have 2: "fst (initializeApplication e c s1) = Inl err"
    using Cons.prems(2) initializeApplication_fst_uri[OF s1(1), of e c] by simp
  from Cons.IH[OF 1 2, of "acc @ [h]"] obtain s' evs where
    "initializeAll e (pre @ c # post) (acc @ [h]) s1 = (Inl err, s')" "uri s' = uri s1" "cache s' = cache s1"
    "calls s' = calls s1 @ map (\<lambda>c. Init (app_id c)) pre @ evs" "set evs \<subseteq> {Init (app_id c)}" by blast
  with step r s1 show ?case by auto
qed


text \<open>
  The prune pass and the selection. The guard of line 131 changes nothing: without an
  empty \<^verbatim>\<open>appPath\<close> the pass would request no detach and clear no slot.
\<close>

lemma prune_no_empty:
  "\<not> list_ex (\<lambda>app. appPath app = []) apps \<Longrightarrow> prune e apps = map Some apps \<and> detach_requests apps = []"
  by (auto simp: prune_def detach_requests_def list_ex_iff filter_empty_conv)

lemma map_filter_prune:
  "List.map_filter (\<lambda>slot. slot) (prune e apps) =
     filter (\<lambda>app. \<not> (appPath app = [] \<and> detach_settled e (app_id app))) apps"
  by (induction apps) (auto simp: prune_def List.map_filter_simps)

lemma not_cached_iff:
  "(\<not> list_ex (\<lambda>loaded. getId loaded = i) c) = (i \<notin> set (map getId c))"
  by (auto simp: list_ex_iff)

lemma appConfigs_prune:
  "appConfigs (prune e apps) c =
     filter (\<lambda>app. app_id app \<notin> set (map getId c))
       (filter (\<lambda>app. \<not> (appPath app = [] \<and> detach_settled e (app_id app))) apps)"
  unfolding appConfigs_def map_filter_prune not_cached_iff ..

lemma loadFromConfigurations_unfold:
  assumes "readConfigFile e = Inr apps"
  shows "loadFromConfigurations e exactly s =
     (let s2 = s\<lparr>cache := (if exactly then [] else cache s), calls := calls s @ detach_requests apps\<rparr>
      in case initializeAll e (appConfigs (prune e apps) (cache s2)) [] s2 of
           (Inl err, s3) \<Rightarrow> (Inl err, s3)
         | (Inr apps', s3) \<Rightarrow>
             (let s4 = s3\<lparr>calls := calls s3 @ [Write (map config apps')]\<rparr>
              in case writeConfigApplication e (map config apps') of
                   Some err \<Rightarrow> (Inl err, s4)
                 | None \<Rightarrow> (Inr (), snd (setAppsToContainer apps' s4))))"
proof (cases "list_ex (\<lambda>app. appPath app = []) apps")
  case True
  then show ?thesis using assms by (simp add: loadFromConfigurations_def Let_def)
next
  case False
  from prune_no_empty[OF False, of e] show ?thesis using assms False
    by (simp add: loadFromConfigurations_def Let_def)
qed

text \<open>What a call of \<^verbatim>\<open>loadFromConfigurations\<close> whose read succeeds leaves behind.\<close>

lemma loadFromConfigurations_cases:
  assumes read: "readConfigFile e = Inr apps"
    and load: "loadFromConfigurations e exactly s = (r, s')"
  defines "c0 \<equiv> (if exactly then [] else cache s)"
  defines "sel \<equiv> appConfigs (prune e apps) c0"
  shows "uri s' = uri s \<and>
    ((\<exists>err evs. r = Inl err \<and> cache s' = c0 \<and> calls s' = calls s @ detach_requests apps @ evs \<and>
        (\<forall>i. Init i \<in> set evs \<longrightarrow> i \<in> app_id ` set sel) \<and>
        (\<forall>cs. Write cs \<in> set evs \<longrightarrow> map app_id cs = map app_id sel \<and> writeConfigApplication e cs \<noteq> None) \<and>
        (\<forall>i. Detach i \<notin> set evs))
     \<or> (\<exists>hs. r = Inr () \<and> map getId hs = map app_id sel \<and> cache s' = foldl setApp c0 hs \<and>
           initializeAll e sel [] (s\<lparr>cache := c0, calls := calls s @ detach_requests apps\<rparr>)
             = (Inr hs, s'\<lparr>cache := c0, calls := calls s @ detach_requests apps @ map (\<lambda>c. Init (app_id c)) sel\<rparr>) \<and>
           calls s' = calls s @ detach_requests apps @ map (\<lambda>c. Init (app_id c)) sel @ [Write (map config hs)]))"
proof -
  define s2 where "s2 = s\<lparr>cache := c0, calls := calls s @ detach_requests apps\<rparr>"
  have s2: "uri s2 = uri s" "cache s2 = c0" "calls s2 = calls s @ detach_requests apps"
    by (simp_all add: s2_def)
  obtain q s3 where ia: "initializeAll e sel [] s2 = (q, s3)" by (cases "initializeAll e sel [] s2")
  note unf = loadFromConfigurations_unfold[OF read, of exactly s, folded c0_def, folded s2_def,
      unfolded Let_def s2(2), folded sel_def, unfolded ia]
  show ?thesis
  proof (cases q)
    case (Inl err)
    with unf load have r: "r = Inl err" "s' = s3" by simp_all
    from initializeAll_Inl[OF ia[unfolded Inl]] obtain pre c post evs where
      d: "sel = pre @ c # post" "calls s3 = calls s2 @ map (\<lambda>c. Init (app_id c)) pre @ evs"
         "set evs \<subseteq> {Init (app_id c)}" and u: "uri s3 = uri s2" "cache s3 = cache s2" by blast
    let ?evs = "map (\<lambda>c. Init (app_id c)) pre @ evs"
    have "\<forall>i. Init i \<in> set ?evs \<longrightarrow> i \<in> app_id ` set sel" using d by auto
    moreover have "\<forall>cs. Write cs \<notin> set ?evs" using d by auto
    moreover have "\<forall>i. Detach i \<notin> set ?evs" using d by auto
    moreover have "calls s' = calls s @ detach_requests apps @ ?evs" using d r s2 by simp
    moreover have "cache s' = c0" "uri s' = uri s" using r u s2 by simp_all
    ultimately have "\<exists>err evs. r = Inl err \<and> cache s' = c0 \<and> calls s' = calls s @ detach_requests apps @ evs \<and>
        (\<forall>i. Init i \<in> set evs \<longrightarrow> i \<in> app_id ` set sel) \<and>
        (\<forall>cs. Write cs \<in> set evs \<longrightarrow> map app_id cs = map app_id sel \<and> writeConfigApplication e cs \<noteq> None) \<and>
        (\<forall>i. Detach i \<notin> set evs)"
      using r(1) by (intro exI[of _ err] exI[of _ ?evs]) simp
    with \<open>uri s' = uri s\<close> show ?thesis by simp
  next
    case (Inr hs)
    from initializeAll_Inr[OF ia[unfolded Inr]]
    have h: "map getId hs = map app_id sel" "uri s3 = uri s" "cache s3 = c0"
      "calls s3 = calls s @ detach_requests apps @ map (\<lambda>c. Init (app_id c)) sel"
      using s2 by simp_all
    let ?s4 = "s3\<lparr>calls := calls s3 @ [Write (map config hs)]\<rparr>"
    have ids: "map app_id (map config hs) = map app_id sel" using h(1) by (simp add: getId_def[abs_def] comp_def)
    show ?thesis
    proof (cases "writeConfigApplication e (map config hs)")
      case (Some err)
      with unf load Inr have r: "r = Inl err" "s' = ?s4" by (simp_all add: Let_def)
      let ?evs = "map (\<lambda>c. Init (app_id c)) sel @ [Write (map config hs)]"
      have "\<forall>i. Init i \<in> set ?evs \<longrightarrow> i \<in> app_id ` set sel" by auto
      moreover have "\<forall>cs. Write cs \<in> set ?evs \<longrightarrow> map app_id cs = map app_id sel \<and> writeConfigApplication e cs \<noteq> None"
        using ids Some by auto
      moreover have "\<forall>i. Detach i \<notin> set ?evs" by auto
      moreover have "calls s' = calls s @ detach_requests apps @ ?evs" using r h by simp
      moreover have "cache s' = c0" "uri s' = uri s" using r h by simp_all
      ultimately have "\<exists>err evs. r = Inl err \<and> cache s' = c0 \<and> calls s' = calls s @ detach_requests apps @ evs \<and>
          (\<forall>i. Init i \<in> set evs \<longrightarrow> i \<in> app_id ` set sel) \<and>
          (\<forall>cs. Write cs \<in> set evs \<longrightarrow> map app_id cs = map app_id sel \<and> writeConfigApplication e cs \<noteq> None) \<and>
          (\<forall>i. Detach i \<notin> set evs)"
        using r(1) by (intro exI[of _ err] exI[of _ ?evs]) simp
      with \<open>uri s' = uri s\<close> show ?thesis by simp
    next
      case None
      with unf load Inr have r: "r = Inr ()" "s' = snd (setAppsToContainer hs ?s4)" by (simp_all add: Let_def)
      have c: "cache s' = foldl setApp c0 hs" "uri s' = uri s"
        "calls s' = calls s @ detach_requests apps @ map (\<lambda>c. Init (app_id c)) sel @ [Write (map config hs)]"
        using r h by (simp_all add: setAppsToContainer_def Let_def)
      have "s3 = s'\<lparr>cache := c0, calls := calls s @ detach_requests apps @ map (\<lambda>c. Init (app_id c)) sel\<rparr>"
        using r h by (simp add: setAppsToContainer_def Let_def)
      with ia Inr have "initializeAll e sel [] (s\<lparr>cache := c0, calls := calls s @ detach_requests apps\<rparr>)
             = (Inr hs, s'\<lparr>cache := c0, calls := calls s @ detach_requests apps @ map (\<lambda>c. Init (app_id c)) sel\<rparr>)"
        by (simp add: s2_def)
      with r(1) c h(1) have "\<exists>hs. r = Inr () \<and> map getId hs = map app_id sel \<and> cache s' = foldl setApp c0 hs \<and>
           initializeAll e sel [] (s\<lparr>cache := c0, calls := calls s @ detach_requests apps\<rparr>)
             = (Inr hs, s'\<lparr>cache := c0, calls := calls s @ detach_requests apps @ map (\<lambda>c. Init (app_id c)) sel\<rparr>) \<and>
           calls s' = calls s @ detach_requests apps @ map (\<lambda>c. Init (app_id c)) sel @ [Write (map config hs)]"
        by (intro exI[of _ hs]) simp
      with c(2) show ?thesis by simp
    qed
  qed
qed


text \<open>The entry \<^verbatim>\<open>_cache.find\<close> returns is the first with the id.\<close>

lemma update_first_list_update:
  "list_ex P xs \<Longrightarrow>
     \<exists>j<length xs. P (xs ! j) \<and> (\<forall>k<j. \<not> P (xs ! k)) \<and> update_first P f xs = xs[j := f (xs ! j)]"
proof (induction xs)
  case Nil then show ?case by simp
next
  case (Cons x xs)
  show ?case
  proof (cases "P x")
    case True
    then have "0 < length (x # xs) \<and> P ((x # xs) ! 0) \<and> (\<forall>k<0. \<not> P ((x # xs) ! k)) \<and>
        update_first P f (x # xs) = (x # xs)[0 := f ((x # xs) ! 0)]" by simp
    then show ?thesis by blast
  next
    case False
    with Cons.prems have "list_ex P xs" by simp
    from Cons.IH[OF this] obtain j where j: "j < length xs" "P (xs ! j)" "\<forall>k<j. \<not> P (xs ! k)"
      "update_first P f xs = xs[j := f (xs ! j)]" by blast
    have "\<forall>k<Suc j. \<not> P ((x # xs) ! k)"
    proof (intro allI impI)
      fix k assume "k < Suc j"
      then show "\<not> P ((x # xs) ! k)" using False j(3) by (cases k) auto
    qed
    with j False have "Suc j < length (x # xs) \<and> P ((x # xs) ! Suc j) \<and> (\<forall>k<Suc j. \<not> P ((x # xs) ! k)) \<and>
        update_first P f (x # xs) = (x # xs)[Suc j := f ((x # xs) ! Suc j)]" by simp
    then show ?thesis by blast
  qed
qed

lemma setAppsToContainer_result:
  "setAppsToContainer apps s = (foldl setApp (cache s) apps, s\<lparr>cache := foldl setApp (cache s) apps\<rparr>)"
  by (simp add: setAppsToContainer_def Let_def)

lemma loadFromConfigurations_distinct:
  assumes "loadFromConfigurations e exactly s = (r, s')" and "distinct (map getId (cache s))"
  shows "distinct (map getId (cache s'))"
proof (cases "readConfigFile e")
  case (Inl err)
  with assms show ?thesis by (simp add: loadFromConfigurations_def)
next
  case (Inr apps)
  have d: "distinct (map getId (if exactly then [] else cache s))" using assms(2) by simp
  from loadFromConfigurations_cases[OF Inr assms(1)] foldl_setApp_distinct[OF d] d
  show ?thesis by auto
qed

lemma run_op_distinct:
  "distinct (map getId (cache s)) \<Longrightarrow> distinct (map getId (cache (run_op s x)))"
proof (cases x)
  case (OpLoadFromConfigurations e exactly)
  assume d: "distinct (map getId (cache s))"
  obtain r s' where l: "loadFromConfigurations e exactly s = (r, s')"
    by (cases "loadFromConfigurations e exactly s")
  from loadFromConfigurations_distinct[OF l d] l OpLoadFromConfigurations show ?thesis by simp
qed (simp_all add: initialize_def reset_def createApplication_frame setAppsToContainer_result
      foldl_setApp_distinct)


lemma loadFromConfigurations_events:
  assumes read: "readConfigFile e = Inr apps"
    and load: "loadFromConfigurations e exactly s = (r, s')"
  shows "\<exists>evs. calls s' = calls s @ detach_requests apps @ evs \<and>
           (\<forall>i. Detach i \<notin> set evs) \<and>
           (\<forall>i. Init i \<in> set evs \<longrightarrow>
                i \<in> app_id ` set (appConfigs (prune e apps) (if exactly then [] else cache s))) \<and>
           (\<forall>cs. Write cs \<in> set evs \<longrightarrow>
                map app_id cs = map app_id (appConfigs (prune e apps) (if exactly then [] else cache s)))"
proof -
  define sel where "sel = appConfigs (prune e apps) (if exactly then [] else cache s)"
  note cases = loadFromConfigurations_cases[OF read load, folded sel_def]
  have "\<exists>evs. calls s' = calls s @ detach_requests apps @ evs \<and>
           (\<forall>i. Detach i \<notin> set evs) \<and>
           (\<forall>i. Init i \<in> set evs \<longrightarrow> i \<in> app_id ` set sel) \<and>
           (\<forall>cs. Write cs \<in> set evs \<longrightarrow> map app_id cs = map app_id sel)"
  proof (cases r)
    case (Inl err)
    with cases show ?thesis by auto
  next
    case (Inr x)
    with cases obtain hs where ok: "map getId hs = map app_id sel"
      "calls s' = calls s @ detach_requests apps @ map (\<lambda>c. Init (app_id c)) sel @ [Write (map config hs)]"
      by auto
    let ?evs = "map (\<lambda>c. Init (app_id c)) sel @ [Write (map config hs)]"
    have "map app_id (map config hs) = map app_id sel"
      using ok(1) by (simp add: getId_def[abs_def] comp_def)
    then have "(\<forall>i. Detach i \<notin> set ?evs) \<and> (\<forall>i. Init i \<in> set ?evs \<longrightarrow> i \<in> app_id ` set sel) \<and>
        (\<forall>cs. Write cs \<in> set ?evs \<longrightarrow> map app_id cs = map app_id sel)"
      by auto
    with ok(2) show ?thesis by blast
  qed
  then show ?thesis unfolding sel_def .
qed

lemma loadFromConfigurations_cache:
  assumes read: "readConfigFile e = Inr apps"
    and load: "loadFromConfigurations e exactly s = (r, s')"
  shows "(\<exists>err. r = Inl err \<and> cache s' = (if exactly then [] else cache s)) \<or>
         (\<exists>hs. r = Inr () \<and>
            map getId hs = map app_id (appConfigs (prune e apps) (if exactly then [] else cache s)) \<and>
            cache s' = foldl setApp (if exactly then [] else cache s) hs)"
  using loadFromConfigurations_cases[OF read load] by blast

lemma loadFromConfigurations_uri:
  "loadFromConfigurations e exactly s = (r, s') \<Longrightarrow> uri s' = uri s"
proof (cases "readConfigFile e")
  case (Inl err)
  assume "loadFromConfigurations e exactly s = (r, s')"
  with Inl show ?thesis by (simp add: loadFromConfigurations_def)
next
  case (Inr apps)
  assume "loadFromConfigurations e exactly s = (r, s')"
  from loadFromConfigurations_cases[OF Inr this] show ?thesis by blast
qed

lemma loadFromConfigurations_after:
  assumes read: "readConfigFile e = Inr apps"
    and c0: "c0 = (if exactly then [] else cache s)"
    and ia: "initializeAll e (appConfigs (prune e apps) c0) []
               (s\<lparr>cache := c0, calls := calls s @ detach_requests apps\<rparr>) = (q, s3)"
  shows "loadFromConfigurations e exactly s =
     (case q of
        Inl err \<Rightarrow> (Inl err, s3)
      | Inr apps' \<Rightarrow>
          (case writeConfigApplication e (map config apps') of
             Some err \<Rightarrow> (Inl err, s3\<lparr>calls := calls s3 @ [Write (map config apps')]\<rparr>)
           | None \<Rightarrow> (Inr (), s3\<lparr>calls := calls s3 @ [Write (map config apps')],
                                  cache := foldl setApp (cache s3) apps'\<rparr>)))"
  using loadFromConfigurations_unfold[OF read, of exactly s] ia[unfolded c0]
  by (simp add: Let_def setAppsToContainer_result split: sum.splits option.splits)

lemma loadFromConfigurations_cong:
  assumes u: "uri s = uri t" and c: "cache s = cache t"
  shows "fst (loadFromConfigurations e exactly s) = fst (loadFromConfigurations e exactly t) \<and>
         cache (snd (loadFromConfigurations e exactly s)) = cache (snd (loadFromConfigurations e exactly t))"
proof (cases "readConfigFile e")
  case (Inl err)
  then show ?thesis using c by (simp add: loadFromConfigurations_def)
next
  case (Inr apps)
  define c0 where "c0 = (if exactly then [] else cache s)"
  have c0t: "c0 = (if exactly then [] else cache t)" by (simp add: c0_def c)
  define sel where "sel = appConfigs (prune e apps) c0"
  define s2 where "s2 = s\<lparr>cache := c0, calls := calls s @ detach_requests apps\<rparr>"
  define t2 where "t2 = t\<lparr>cache := c0, calls := calls t @ detach_requests apps\<rparr>"
  obtain q s3 where a: "initializeAll e sel [] s2 = (q, s3)" by (cases "initializeAll e sel [] s2")
  obtain q' t3 where b: "initializeAll e sel [] t2 = (q', t3)" by (cases "initializeAll e sel [] t2")
  have "uri s2 = uri t2" using u by (simp add: s2_def t2_def)
  from initializeAll_fst_uri[OF this, of e sel "[]"] a b have q: "q' = q" by simp
  note ls = loadFromConfigurations_after[OF Inr c0_def a[unfolded sel_def s2_def]]
  note lt = loadFromConfigurations_after[OF Inr c0t b[unfolded sel_def t2_def q]]
  show ?thesis
  proof (cases q)
    case (Inl err)
    from initializeAll_Inl[OF a[unfolded Inl]] initializeAll_Inl[OF b[unfolded q Inl]]
    have "cache s3 = cache t3" by (simp add: s2_def t2_def)
    with ls lt Inl show ?thesis by simp
  next
    case (Inr hs)
    from initializeAll_Inr[OF a[unfolded Inr]] initializeAll_Inr[OF b[unfolded q Inr]]
    have "cache s3 = cache t3" by (simp add: s2_def t2_def)
    with ls lt Inr show ?thesis
      by (simp split: option.splits)
  qed
qed

text \<open>The definitions a run on the concrete inputs unfolds.\<close>

lemmas ex_simps =
  loadFromConfigurations_def initializeApplication_def createApplication_def
  setAppsToContainer_def setApp_def appConfigs_def prune_def detach_requests_def
  merge_properties_def findClassModule_def AppTypes_index_def AppTypes_tag_def new_App_def
  getId_def getProperties_def setConfig_def new_ApplicationError_def
  ex_env_def ex_config_def ex_container_def ex_handle_def ex_port_def ex_defaults_def
  List.map_filter_simps Let_def

subsection \<open>The claims\<close>

text \<open>
  Claim C1. When a persisted record is reconstructed, the property list of the new
  handle is computed over the template of its kind: a template property \<open>p\<close> is
  replaced when the record has a changeable property with the key of \<open>p\<close>, and then by
  the record's property for that key (the first one with the key, which the record then
  has); every other template property is kept. The list has the template's length and
  order.
\<close>

theorem initializeApplication_merge:
  assumes "initializeApplication e cfg s = (Inr app, s')"
  shows "\<exists>k. findClassModule (AppTypes_index (app_type cfg)) = Inr k \<and>
           getProperties app =
             map (\<lambda>p. if (\<exists>pv\<in>set (properties cfg). key pv = key p \<and> changeable pv)
                      then the (find (\<lambda>pv. key pv = key p) (properties cfg))
                      else p) (defaults e k) \<and>
           (\<forall>p\<in>set (defaults e k).
              (\<exists>pv\<in>set (properties cfg). key pv = key p \<and> changeable pv) \<longrightarrow>
              (\<exists>pv\<in>set (properties cfg). key pv = key p \<and>
                 find (\<lambda>pv. key pv = key p) (properties cfg) = Some pv))"
proof -
  from initializeApplication_Inr[OF assms] obtain u k where
    k: "findClassModule (AppTypes_index (app_type cfg)) = Inr k" and
    app: "app = \<lparr>config = cfg\<lparr>properties := merge_properties (defaults e k) (properties cfg)\<rparr>,
                  workspaceUri = u, htype = k, inits = Suc 0\<rparr>"
    by blast
  have "getProperties app = merge_properties (defaults e k) (properties cfg)"
    by (simp add: app getProperties_def)
  then have m: "getProperties app =
      map (\<lambda>p. if (\<exists>pv\<in>set (properties cfg). key pv = key p \<and> changeable pv)
               then the (find (\<lambda>pv. key pv = key p) (properties cfg))
               else p) (defaults e k)"
    by (simp only: merge_properties_eq)
  have f: "\<forall>p\<in>set (defaults e k).
      (\<exists>pv\<in>set (properties cfg). key pv = key p \<and> changeable pv) \<longrightarrow>
      (\<exists>pv\<in>set (properties cfg). key pv = key p \<and>
         find (\<lambda>pv. key pv = key p) (properties cfg) = Some pv)"
    using find_Some_of_ex[of _ "properties cfg"] by (fastforce simp: list_ex_iff)
  from k m f show ?thesis by blast
qed

theorem initializeApplication_merge_witness:
  "initializeApplication (ex_env [] [] True) (ex_config ''a'' ''/srv'' [ex_port 9090 True]) (ex_container [])
     = (Inr (ex_handle ''a'' 9090), (ex_container [])\<lparr>calls := [Init ''a'']\<rparr>) \<and>
   getProperties (ex_handle ''a'' 9090) = [ex_port 9090 True] \<and>
   initializeApplication (ex_env [] [] True) (ex_config ''a'' ''/srv'' [ex_port 9090 False]) (ex_container [])
     = (Inr ((ex_handle ''a'' 8080)\<lparr>config := ex_config ''a'' ''/srv'' [ex_port 8080 True]\<rparr>),
        (ex_container [])\<lparr>calls := [Init ''a'']\<rparr>) \<and>
   getProperties ((ex_handle ''a'' 8080)\<lparr>config := ex_config ''a'' ''/srv'' [ex_port 8080 True]\<rparr>)
     = [ex_port 8080 True]"
proof -
  let ?e = "ex_env [] [] True"
  have 1: "initializeApplication ?e (ex_config ''a'' ''/srv'' [ex_port 9090 True]) (ex_container [])
      = (Inr (ex_handle ''a'' 9090), (ex_container [])\<lparr>calls := [Init ''a'']\<rparr>)"
    by (simp add: initializeApplication_def createApplication_def ex_env_def ex_config_def
          ex_container_def ex_handle_def ex_port_def ex_defaults_def AppTypes_index_def
          findClassModule_def new_App_def getProperties_def setConfig_def getId_def
          merge_properties_def Let_def)
  have 2: "initializeApplication ?e (ex_config ''a'' ''/srv'' [ex_port 9090 False]) (ex_container [])
      = (Inr ((ex_handle ''a'' 8080)\<lparr>config := ex_config ''a'' ''/srv'' [ex_port 8080 True]\<rparr>),
         (ex_container [])\<lparr>calls := [Init ''a'']\<rparr>)"
    by (simp add: initializeApplication_def createApplication_def ex_env_def ex_config_def
          ex_container_def ex_handle_def ex_port_def ex_defaults_def AppTypes_index_def
          findClassModule_def new_App_def getProperties_def setConfig_def getId_def
          merge_properties_def Let_def)
  from initializeApplication_merge[OF 1]
  have 3: "getProperties (ex_handle ''a'' 9090) = [ex_port 9090 True]"
    by (simp add: ex_env_def ex_config_def ex_defaults_def ex_port_def AppTypes_index_def
          findClassModule_def)
  from initializeApplication_merge[OF 2]
  have 4: "getProperties ((ex_handle ''a'' 8080)\<lparr>config := ex_config ''a'' ''/srv'' [ex_port 8080 True]\<rparr>)
      = [ex_port 8080 True]"
    by (simp add: ex_env_def ex_config_def ex_defaults_def ex_port_def AppTypes_index_def
          findClassModule_def)
  from 1 2 3 4 show ?thesis by simp
qed

text \<open>
  Claim C2. Let \<^verbatim>\<open>loadFromConfigurations(false)\<close> be called twice, the collaborators
  answering the second call as they answered the first (the same persisted list). The
  cache after the second call is the cache after the first: the same handles in the same
  order. If the cache had no id twice before the first call, it has none twice after it.
  The second call invokes \<^verbatim>\<open>init\<close> on no id that the cache held after the first call, and
  on nothing at all when the first call succeeded.
\<close>

theorem loadFromConfigurations_twice:
  assumes "loadFromConfigurations e False s = (r1, s1)"
    and "loadFromConfigurations e False s1 = (r2, s2)"
  shows "cache s2 = cache s1 \<and>
         (distinct (map getId (cache s)) \<longrightarrow> distinct (map getId (cache s1))) \<and>
         (\<exists>evs. calls s2 = calls s1 @ evs \<and>
            (\<forall>i. Init i \<in> set evs \<longrightarrow> i \<notin> set (map getId (cache s1))) \<and>
            (r1 = Inr () \<longrightarrow> (\<forall>i. Init i \<notin> set evs)))"
proof (cases "readConfigFile e")
  case (Inl err)
  with assms have "s1 = s" "s2 = s1" by (simp_all add: loadFromConfigurations_def)
  then show ?thesis by simp
next
  case (Inr apps)
  define kept where "kept = filter (\<lambda>app. \<not> (appPath app = [] \<and> detach_settled e (app_id app))) apps"
  have sel: "appConfigs (prune e apps) c = filter (\<lambda>app. app_id app \<notin> set (map getId c)) kept" for c
    by (simp add: appConfigs_prune kept_def)
  have d: "distinct (map getId (cache s)) \<longrightarrow> distinct (map getId (cache s1))"
    using loadFromConfigurations_distinct[OF assms(1)] by blast
  from loadFromConfigurations_events[OF Inr assms(2)] obtain evs where
    evs: "calls s2 = calls s1 @ detach_requests apps @ evs" "\<forall>i. Detach i \<notin> set evs"
      "\<forall>i. Init i \<in> set evs \<longrightarrow> i \<in> app_id ` set (appConfigs (prune e apps) (cache s1))"
    by auto
  have "\<forall>i. i \<in> app_id ` set (appConfigs (prune e apps) (cache s1)) \<longrightarrow> i \<notin> set (map getId (cache s1))"
    unfolding sel by auto
  with evs(3) have "\<forall>i. Init i \<in> set evs \<longrightarrow> i \<notin> set (map getId (cache s1))" by blast
  then have fresh: "\<forall>i. Init i \<in> set (detach_requests apps @ evs) \<longrightarrow> i \<notin> set (map getId (cache s1))"
    by (auto simp: detach_requests_def)
  show ?thesis
  proof (cases r1)
    case (Inl err)
    with loadFromConfigurations_cache[OF Inr assms(1)] have c1: "cache s1 = cache s" by auto
    have u1: "uri s1 = uri s" by (rule loadFromConfigurations_uri[OF assms(1)])
    from loadFromConfigurations_cong[OF u1 c1, of e False] assms
    have "cache s2 = cache s1" by simp
    with d evs(1) fresh Inl show ?thesis by auto
  next
    case (Inr x)
    with loadFromConfigurations_cache[OF \<open>readConfigFile e = Inr apps\<close> assms(1)] obtain hs where
      hs: "map getId hs = map app_id (appConfigs (prune e apps) (cache s))"
          "cache s1 = foldl setApp (cache s) hs" by auto
    have ids1: "set (map getId (cache s1)) = set (map getId (cache s)) \<union> set (map getId hs)"
      by (simp only: hs(2) foldl_setApp_ids)
    have "\<forall>app\<in>set kept. app_id app \<in> set (map getId (cache s1))"
    proof
      fix app assume a: "app \<in> set kept"
      show "app_id app \<in> set (map getId (cache s1))"
      proof (cases "app_id app \<in> set (map getId (cache s))")
        case True then show ?thesis using ids1 by simp
      next
        case False
        with a have "app \<in> set (appConfigs (prune e apps) (cache s))" by (simp add: sel)
        then have "app_id app \<in> set (map getId hs)" unfolding hs(1) by simp
        then show ?thesis using ids1 by simp
      qed
    qed
    then have none: "appConfigs (prune e apps) (cache s1) = []"
      by (simp add: sel filter_empty_conv)
    from loadFromConfigurations_cache[OF \<open>readConfigFile e = Inr apps\<close> assms(2)]
    have c2: "cache s2 = cache s1" by (auto simp: none)
    have "\<forall>i. Init i \<notin> set (detach_requests apps @ evs)"
      using evs(3) by (auto simp: none detach_requests_def)
    with c2 d evs(1) show ?thesis by auto
  qed
qed

theorem loadFromConfigurations_twice_witness:
  "loadFromConfigurations
       (ex_env [ex_config ''a'' ''/srv'' [ex_port 9090 True], ex_config ''b'' ''/opt'' []] [] True) False
       (ex_container [ex_handle ''a'' 1])
     = (Inr (), \<lparr>uri = Some ''/ws'',
                 cache = [ex_handle ''a'' 1, (ex_handle ''b'' 8080)\<lparr>config := ex_config ''b'' ''/opt'' [ex_port 8080 True]\<rparr>],
                 calls = [Init ''b'', Write [ex_config ''b'' ''/opt'' [ex_port 8080 True]]]\<rparr>) \<and>
   loadFromConfigurations
       (ex_env [ex_config ''a'' ''/srv'' [ex_port 9090 True], ex_config ''b'' ''/opt'' []] [] True) False
       \<lparr>uri = Some ''/ws'',
        cache = [ex_handle ''a'' 1, (ex_handle ''b'' 8080)\<lparr>config := ex_config ''b'' ''/opt'' [ex_port 8080 True]\<rparr>],
        calls = [Init ''b'', Write [ex_config ''b'' ''/opt'' [ex_port 8080 True]]]\<rparr>
     = (Inr (), \<lparr>uri = Some ''/ws'',
                 cache = [ex_handle ''a'' 1, (ex_handle ''b'' 8080)\<lparr>config := ex_config ''b'' ''/opt'' [ex_port 8080 True]\<rparr>],
                 calls = [Init ''b'', Write [ex_config ''b'' ''/opt'' [ex_port 8080 True]], Write []]\<rparr>)"
proof -
  let ?e = "ex_env [ex_config ''a'' ''/srv'' [ex_port 9090 True], ex_config ''b'' ''/opt'' []] [] True"
  let ?c = "[ex_handle ''a'' 1, (ex_handle ''b'' 8080)\<lparr>config := ex_config ''b'' ''/opt'' [ex_port 8080 True]\<rparr>]"
  let ?s1 = "\<lparr>uri = Some ''/ws'', cache = ?c,
              calls = [Init ''b'', Write [ex_config ''b'' ''/opt'' [ex_port 8080 True]]]\<rparr>"
  have 1: "loadFromConfigurations ?e False (ex_container [ex_handle ''a'' 1]) = (Inr (), ?s1)"
    by (simp add: ex_simps)
  have 2: "loadFromConfigurations ?e False ?s1
      = (Inr (), ?s1\<lparr>calls := [Init ''b'', Write [ex_config ''b'' ''/opt'' [ex_port 8080 True]], Write []]\<rparr>)"
    by (simp add: ex_simps)
  from loadFromConfigurations_twice[OF 1 2] 1 2 show ?thesis by simp
qed

text \<open>
  Claim C3. For every persisted record whose \<^verbatim>\<open>appPath\<close> is empty the detach is
  requested by its id, and the record is to be dropped, so that no handle for it is in
  the cache afterwards. The code requests the detach but drops the record only when the
  promise of the detach is already fulfilled as the callback awaits it. In the run below
  the promise is not (a detach that waits for the file system, or one with an
  \<^verbatim>\<open>await\<close> of its own): the one persisted record has an empty \<^verbatim>\<open>appPath\<close>, its
  detach is requested, and then a handle is constructed from it, initialized, written
  back and cached, against the claim.
\<close>

theorem loadFromConfigurations_prune_pending:
  "readConfigFile (ex_env [ex_config ''a'' [] []] [] False) = Inr [ex_config ''a'' [] []] \<and>
   appPath (ex_config ''a'' [] []) = [] \<and>
   detach_settled (ex_env [ex_config ''a'' [] []] [] False) ''a'' = False \<and>
   loadFromConfigurations (ex_env [ex_config ''a'' [] []] [] False) False (ex_container [])
     = (Inr (), \<lparr>uri = Some ''/ws'',
                 cache = [\<lparr>config = ex_config ''a'' [] [ex_port 8080 True], workspaceUri = ''/ws'',
                           htype = TOMCAT, inits = 1\<rparr>],
                 calls = [Detach ''a'', Init ''a'', Write [ex_config ''a'' [] [ex_port 8080 True]]]\<rparr>)"
  by (simp add: ex_simps)

text \<open>
  Claim C4, as amended. A failure while a selected record is constructed and
  initialized ends \<^verbatim>\<open>loadFromConfigurations\<close>: the call fails with the error of the first
  record that fails. The records before it have been initialized, the records after it
  are not touched, nothing is written back and no handle of this call reaches the cache,
  which is as it was after the clear of \<^verbatim>\<open>exactly\<close>.
\<close>

theorem loadFromConfigurations_init_failure:
  assumes "readConfigFile e = Inr apps"
    and "appConfigs (prune e apps) (if exactly then [] else cache s) = pre @ c # post"
    and "\<forall>c'\<in>set pre. \<exists>h. fst (initializeApplication e c' s) = Inr h"
    and "fst (initializeApplication e c s) = Inl err"
  shows "\<exists>s' evs. loadFromConfigurations e exactly s = (Inl err, s') \<and>
           uri s' = uri s \<and> cache s' = (if exactly then [] else cache s) \<and>
           calls s' = calls s @ detach_requests apps @ map (\<lambda>c. Init (app_id c)) pre @ evs \<and>
           set evs \<subseteq> {Init (app_id c)}"
proof -
  define c0 where "c0 = (if exactly then [] else cache s)"
  define s2 where "s2 = s\<lparr>cache := c0, calls := calls s @ detach_requests apps\<rparr>"
  have u: "uri s = uri s2" by (simp add: s2_def)
  have 1: "\<forall>c'\<in>set pre. \<exists>h. fst (initializeApplication e c' s2) = Inr h"
    using assms(3) initializeApplication_fst_uri[OF u, of e] by simp
  have 2: "fst (initializeApplication e c s2) = Inl err"
    using assms(4) initializeApplication_fst_uri[OF u, of e c] by simp
  from initializeAll_first_failure[OF 1 2, of post "[]"] obtain s' evs where
    ia: "initializeAll e (pre @ c # post) [] s2 = (Inl err, s')" and
    fr: "uri s' = uri s2" "cache s' = cache s2"
        "calls s' = calls s2 @ map (\<lambda>c. Init (app_id c)) pre @ evs" "set evs \<subseteq> {Init (app_id c)}"
    by blast
  from loadFromConfigurations_after[OF assms(1) c0_def, of "Inl err" s']
    ia[unfolded s2_def] assms(2)[folded c0_def]
  have "loadFromConfigurations e exactly s = (Inl err, s')" by simp
  with fr show ?thesis by (auto simp: s2_def c0_def)
qed

theorem loadFromConfigurations_init_failure_witness:
  "loadFromConfigurations
       (ex_env [ex_config ''a'' ''/srv'' [], ex_config ''b'' ''/opt'' []] [''b''] True)
       True (ex_container [ex_handle ''z'' 1])
     = (Inl (new_ApplicationError NotReady),
        \<lparr>uri = Some ''/ws'', cache = [], calls = [Init ''a'', Init ''b'']\<rparr>)"
proof -
  let ?apps = "[ex_config ''a'' ''/srv'' [], ex_config ''b'' ''/opt'' []]"
  let ?e = "ex_env ?apps [''b''] True"
  let ?s = "ex_container [ex_handle ''z'' 1]"
  have 1: "readConfigFile ?e = Inr ?apps" by (simp add: ex_env_def)
  have 2: "appConfigs (prune ?e ?apps) (if True then [] else cache ?s)
      = [ex_config ''a'' ''/srv'' []] @ ex_config ''b'' ''/opt'' [] # []"
    by (simp add: ex_simps)
  have 3: "\<forall>c'\<in>set [ex_config ''a'' ''/srv'' []]. \<exists>h. fst (initializeApplication ?e c' ?s) = Inr h"
    by (simp add: ex_simps)
  have 4: "fst (initializeApplication ?e (ex_config ''b'' ''/opt'' []) ?s) = Inl (new_ApplicationError NotReady)"
    by (simp add: ex_simps)
  from loadFromConfigurations_init_failure[OF 1 2 3 4] obtain s' evs where
    r: "loadFromConfigurations ?e True ?s = (Inl (new_ApplicationError NotReady), s')"
      "uri s' = uri ?s" "cache s' = []"
      "calls s' = calls ?s @ detach_requests ?apps @ map (\<lambda>c. Init (app_id c)) [ex_config ''a'' ''/srv'' []] @ evs"
      "set evs \<subseteq> {Init (app_id (ex_config ''b'' ''/opt'' []))}"
    by auto
  have "loadFromConfigurations ?e True ?s
      = (Inl (new_ApplicationError NotReady), \<lparr>uri = Some ''/ws'', cache = [], calls = [Init ''a'', Init ''b'']\<rparr>)"
    by (simp add: ex_simps)
  with r show ?thesis by simp
qed

text \<open>
  The claim as it was stated lets the other records be constructed, initialized,
  written back and cached. With three valid records of which the second fails in
  \<^verbatim>\<open>init\<close>, the call fails, the third record is never initialized, nothing is written
  back and the cache stays empty: the first record, initialized, is not cached either.
\<close>

theorem loadFromConfigurations_init_failure_counterexample:
  "loadFromConfigurations
       (ex_env [ex_config ''a'' ''/srv'' [], ex_config ''b'' ''/opt'' [], ex_config ''c'' ''/tmp'' []] [''b''] True)
       False (ex_container [])
     = (Inl (new_ApplicationError NotReady),
        \<lparr>uri = Some ''/ws'', cache = [], calls = [Init ''a'', Init ''b'']\<rparr>) \<and>
   init_outcome
       (ex_env [ex_config ''a'' ''/srv'' [], ex_config ''b'' ''/opt'' [], ex_config ''c'' ''/tmp'' []] [''b''] True)
       ((ex_handle ''c'' 8080)\<lparr>config := ex_config ''c'' ''/tmp'' [ex_port 8080 True], inits := 0\<rparr>)
     = None"
  by (simp add: ex_simps)

text \<open>
  Claim C5. \<^verbatim>\<open>setAppsToContainer\<close> takes the passed handles in order. Let \<open>c1\<close> be the
  cache when a handle \<open>a\<close> is reached (after the handles \<open>apps\<close> before it). When \<open>c1\<close>
  holds an entry with the id of \<open>a\<close>, the first such entry has its config replaced by the
  config of \<open>a\<close> and nothing else in the cache changes; otherwise \<open>a\<close> is appended. The
  call makes no call to a collaborator (no \<^verbatim>\<open>init\<close>), and every entry the cache held
  before the call is still at its place afterwards, the same but for its config: same
  id, and as many \<^verbatim>\<open>init\<close> calls as before.
\<close>

theorem setAppsToContainer_upsert:
  assumes "setAppsToContainer apps s = (c1, s1)"
    and "setAppsToContainer (apps @ [a]) s = (c2, s2)"
  shows "(getId a \<in> set (map getId c1) \<longrightarrow>
            (\<exists>j<length c1. getId (c1 ! j) = getId a \<and> (\<forall>k<j. getId (c1 ! k) \<noteq> getId a) \<and>
                c2 = c1[j := (c1 ! j)\<lparr>config := config a\<rparr>])) \<and>
         (getId a \<notin> set (map getId c1) \<longrightarrow> c2 = c1 @ [a]) \<and>
         cache s2 = c2 \<and> uri s2 = uri s \<and> calls s2 = calls s \<and>
         length (cache s) \<le> length c2 \<and>
         (\<forall>i<length (cache s).
            (c2 ! i)\<lparr>config := config (cache s ! i)\<rparr> = cache s ! i \<and>
            getId (c2 ! i) = getId (cache s ! i) \<and> inits (c2 ! i) = inits (cache s ! i))"
proof -
  from assms have c1: "c1 = foldl setApp (cache s) apps"
    and c2: "c2 = setApp c1 a" "c2 = foldl setApp (cache s) (apps @ [a])"
    and s2: "s2 = s\<lparr>cache := c2\<rparr>"
    by (auto simp: setAppsToContainer_result)
  have hit: "\<exists>j<length c1. getId (c1 ! j) = getId a \<and> (\<forall>k<j. getId (c1 ! k) \<noteq> getId a) \<and>
      c2 = c1[j := (c1 ! j)\<lparr>config := config a\<rparr>]" if "getId a \<in> set (map getId c1)"
  proof -
    from that have ex: "list_ex (\<lambda>h. getId h = getId a) c1"
      using not_cached_iff[of "getId a" c1] by blast
    from update_first_list_update[OF ex, of "setConfig (config a)"] ex
    show ?thesis by (simp add: c2(1) setApp_def setConfig_def)
  qed
  have miss: "c2 = c1 @ [a]" if "getId a \<notin> set (map getId c1)"
  proof -
    from that have "\<not> list_ex (\<lambda>h. getId h = getId a) c1"
      using not_cached_iff[of "getId a" c1] by blast
    then show ?thesis by (simp add: c2(1) setApp_def)
  qed
  have len: "length (cache s) \<le> length c2" unfolding c2(2) by (rule foldl_setApp_length)
  have old: "(c2 ! i)\<lparr>config := config (cache s ! i)\<rparr> = cache s ! i \<and>
      getId (c2 ! i) = getId (cache s ! i) \<and> inits (c2 ! i) = inits (cache s ! i)"
    if "i < length (cache s)" for i
    using foldl_setApp_nth[OF that, of "apps @ [a]"] unfolding c2(2)[symmetric]
    by (simp add: handle.equality)
  from hit miss len old s2 show ?thesis by simp
qed

theorem setAppsToContainer_upsert_witness:
  "setAppsToContainer [] (ex_container [ex_handle ''a'' 1]) = ([ex_handle ''a'' 1], ex_container [ex_handle ''a'' 1]) \<and>
   setAppsToContainer [(ex_handle ''a'' 2)\<lparr>inits := 7\<rparr>] (ex_container [ex_handle ''a'' 1])
     = ([ex_handle ''a'' 2], ex_container [ex_handle ''a'' 2]) \<and>
   setAppsToContainer [ex_handle ''b'' 2] (ex_container [ex_handle ''a'' 1])
     = ([ex_handle ''a'' 1, ex_handle ''b'' 2], ex_container [ex_handle ''a'' 1, ex_handle ''b'' 2])"
proof -
  let ?s = "ex_container [ex_handle ''a'' 1]"
  have ids: "getId (ex_handle ''a'' 1) = ''a''" "getId ((ex_handle ''a'' 2)\<lparr>inits := 7\<rparr>) = ''a''"
    "getId (ex_handle ''b'' 2) = ''b''"
    by (simp_all add: getId_def ex_handle_def ex_config_def)
  have 0: "setAppsToContainer [] ?s = ([ex_handle ''a'' 1], ?s)"
    by (simp add: setAppsToContainer_result ex_container_def)
  obtain c2 s2 where 1: "setAppsToContainer ([] @ [(ex_handle ''a'' 2)\<lparr>inits := 7\<rparr>]) ?s = (c2, s2)"
    by (cases "setAppsToContainer ([] @ [(ex_handle ''a'' 2)\<lparr>inits := 7\<rparr>]) ?s")
  from setAppsToContainer_upsert[OF 0 1] ids
  have "c2 = [(ex_handle ''a'' 1)\<lparr>config := config (ex_handle ''a'' 2)\<rparr>]" "cache s2 = c2" "uri s2 = uri ?s" "calls s2 = calls ?s"
    by auto
  then have a: "c2 = [ex_handle ''a'' 2]" "s2 = ex_container [ex_handle ''a'' 2]"
    by (simp_all add: ex_handle_def ex_container_def)
  obtain c3 s3 where 2: "setAppsToContainer ([] @ [ex_handle ''b'' 2]) ?s = (c3, s3)"
    by (cases "setAppsToContainer ([] @ [ex_handle ''b'' 2]) ?s")
  from setAppsToContainer_upsert[OF 0 2] ids
  have "c3 = [ex_handle ''a'' 1, ex_handle ''b'' 2]" "cache s3 = c3" "uri s3 = uri ?s" "calls s3 = calls ?s"
    by auto
  then have b: "c3 = [ex_handle ''a'' 1, ex_handle ''b'' 2]" "s3 = ex_container [ex_handle ''a'' 1, ex_handle ''b'' 2]"
    by (simp_all add: ex_container_def)
  from 0 1 2 a b show ?thesis by simp
qed

text \<open>
  Claim C6. When the read succeeds, \<^verbatim>\<open>loadFromConfigurations(true)\<close> does what it does
  on an empty cache: the prior entries do not influence the result. Afterwards every
  handle in the cache carries the id of a record of the list just read, so an id that
  was cached before and is absent from that list is not in the cache.
\<close>

theorem loadFromConfigurations_exactly:
  assumes "readConfigFile e = Inr apps"
    and "loadFromConfigurations e True s = (r, s')"
  shows "loadFromConfigurations e True (s\<lparr>cache := []\<rparr>) = (r, s') \<and>
         set (map getId (cache s')) \<subseteq> app_id ` set apps \<and>
         (\<forall>i\<in>set (map getId (cache s)). i \<notin> app_id ` set apps \<longrightarrow> i \<notin> set (map getId (cache s')))"
proof -
  have same: "loadFromConfigurations e True (s\<lparr>cache := []\<rparr>) = loadFromConfigurations e True s"
    by (simp add: loadFromConfigurations_unfold[OF assms(1)])
  have sel: "app_id ` set (appConfigs (prune e apps) []) \<subseteq> app_id ` set apps"
    by (auto simp: appConfigs_prune)
  from loadFromConfigurations_cache[OF assms]
  have sub: "set (map getId (cache s')) \<subseteq> app_id ` set apps"
  proof (elim disjE exE conjE)
    fix err assume "cache s' = (if True then [] else cache s)"
    then show ?thesis by simp
  next
    fix hs assume hs: "map getId hs = map app_id (appConfigs (prune e apps) (if True then [] else cache s))"
      and c: "cache s' = foldl setApp (if True then [] else cache s) hs"
    have "set (map getId (cache s')) = set (map getId hs)"
      using c foldl_setApp_ids[of "[]" hs] by simp
    also have "\<dots> = app_id ` set (appConfigs (prune e apps) [])" using hs by simp
    finally show ?thesis using sel by simp
  qed
  from same assms(2) sub show ?thesis by auto
qed

theorem loadFromConfigurations_exactly_witness:
  "readConfigFile (ex_env [ex_config ''b'' ''/srv'' [ex_port 9090 True]] [] True)
     = Inr [ex_config ''b'' ''/srv'' [ex_port 9090 True]] \<and>
   loadFromConfigurations (ex_env [ex_config ''b'' ''/srv'' [ex_port 9090 True]] [] True) True
       (ex_container [ex_handle ''a'' 1, ex_handle ''b'' 2])
     = (Inr (), \<lparr>uri = Some ''/ws'', cache = [ex_handle ''b'' 9090],
                 calls = [Init ''b'', Write [ex_config ''b'' ''/srv'' [ex_port 9090 True]]]\<rparr>) \<and>
   loadFromConfigurations (ex_env [ex_config ''b'' ''/srv'' [ex_port 9090 True]] [] True) True
       ((ex_container [ex_handle ''a'' 1, ex_handle ''b'' 2])\<lparr>cache := []\<rparr>)
     = (Inr (), \<lparr>uri = Some ''/ws'', cache = [ex_handle ''b'' 9090],
                 calls = [Init ''b'', Write [ex_config ''b'' ''/srv'' [ex_port 9090 True]]]\<rparr>)"
proof -
  let ?e = "ex_env [ex_config ''b'' ''/srv'' [ex_port 9090 True]] [] True"
  have 1: "readConfigFile ?e = Inr [ex_config ''b'' ''/srv'' [ex_port 9090 True]]"
    by (simp add: ex_env_def)
  have 2: "loadFromConfigurations ?e True (ex_container [ex_handle ''a'' 1, ex_handle ''b'' 2])
     = (Inr (), \<lparr>uri = Some ''/ws'', cache = [ex_handle ''b'' 9090],
                 calls = [Init ''b'', Write [ex_config ''b'' ''/srv'' [ex_port 9090 True]]]\<rparr>)"
    by (simp add: ex_simps)
  from loadFromConfigurations_exactly[OF 1 2] 1 2 show ?thesis by simp
qed

text \<open>
  Claim C7, as amended. \<^verbatim>\<open>createApplication\<close> fails with NotFoundWorkspace when the
  workspace location is not set; with the location set it fails with NoValidAppType when
  the kind is neither \<^verbatim>\<open>TOMCAT\<close> nor \<^verbatim>\<open>SPRING_BOOT\<close>; otherwise it returns a new handle
  of that kind, bound to the workspace location, with the kind's default properties, not
  yet initialized, whose id is the supplied id when that is a non-empty string and
  \<^verbatim>\<open>"App"\<close> followed by the clock's digits when no id or the empty string is supplied.
  In every case the cache is left as it was.
\<close>

theorem createApplication_outcomes:
  "(uri s = None \<longrightarrow>
      createApplication e t i s = (Inl (new_ApplicationError NotFoundWorkspace), s)) \<and>
   (uri s \<noteq> None \<and> t \<noteq> Some ''TOMCAT'' \<and> t \<noteq> Some ''SPRING_BOOT'' \<longrightarrow>
      createApplication e t i s = (Inl (new_ApplicationError NoValidAppType), s)) \<and>
   (uri s = Some u \<and> t = Some (AppTypes_tag k) \<longrightarrow>
      (\<exists>h. createApplication e t i s = (Inr h, s) \<and>
           workspaceUri h = u \<and> htype h = k \<and> getProperties h = defaults e k \<and> inits h = 0 \<and>
           getId h = (case i of
                        None \<Rightarrow> ''App'' @ show_nat (now e)
                      | Some x \<Rightarrow> if x = [] then ''App'' @ show_nat (now e) else x))) \<and>
   cache (snd (createApplication e t i s)) = cache s"
proof -
  have "t = Some (AppTypes_tag k) \<Longrightarrow> findClassModule t = Inr k"
    by (simp add: findClassModule_Inr_iff)
  moreover have "t \<noteq> Some ''TOMCAT'' \<Longrightarrow> t \<noteq> Some ''SPRING_BOOT'' \<Longrightarrow>
      findClassModule t = Inl (new_ApplicationError NoValidAppType)"
    by (simp add: findClassModule_def)
  moreover have "cache (snd (createApplication e t i s)) = cache s"
    by (simp add: createApplication_frame)
  ultimately show ?thesis
    by (auto simp: createApplication_def Let_def new_App_def getProperties_def getId_def
          split: option.splits)
qed

theorem createApplication_outcomes_witness:
  "createApplication (ex_env [] [] True) (Some ''TOMCAT'') (Some ''a'') ((ex_container [ex_handle ''b'' 1])\<lparr>uri := None\<rparr>)
     = (Inl (new_ApplicationError NotFoundWorkspace), (ex_container [ex_handle ''b'' 1])\<lparr>uri := None\<rparr>) \<and>
   createApplication (ex_env [] [] True) (Some ''UNKNOWN'') (Some ''a'') (ex_container [ex_handle ''b'' 1])
     = (Inl (new_ApplicationError NoValidAppType), ex_container [ex_handle ''b'' 1]) \<and>
   (\<exists>h. createApplication (ex_env [] [] True) (Some ''TOMCAT'') (Some ''a'') (ex_container [ex_handle ''b'' 1])
           = (Inr h, ex_container [ex_handle ''b'' 1]) \<and> getId h = ''a'' \<and> workspaceUri h = ''/ws'') \<and>
   (\<exists>h. createApplication (ex_env [] [] True) (Some ''TOMCAT'') None (ex_container [ex_handle ''b'' 1])
           = (Inr h, ex_container [ex_handle ''b'' 1]) \<and> getId h = ''App5'')"
proof -
  let ?e = "ex_env [] [] True" and ?s = "ex_container [ex_handle ''b'' 1]"
  have 1: "createApplication ?e (Some ''TOMCAT'') (Some ''a'') (?s\<lparr>uri := None\<rparr>)
      = (Inl (new_ApplicationError NotFoundWorkspace), ?s\<lparr>uri := None\<rparr>)"
    using createApplication_outcomes[where s = "?s\<lparr>uri := None\<rparr>" and u = "''/ws''" and k = TOMCAT
        and e = ?e and t = "Some ''TOMCAT''" and i = "Some ''a''"]
    by (simp add: ex_container_def)
  have 2: "createApplication ?e (Some ''UNKNOWN'') (Some ''a'') ?s
      = (Inl (new_ApplicationError NoValidAppType), ?s)"
    using createApplication_outcomes[where s = ?s and u = "''/ws''" and k = TOMCAT
        and e = ?e and t = "Some ''UNKNOWN''" and i = "Some ''a''"]
    by (simp add: ex_container_def)
  have 3: "\<exists>h. createApplication ?e (Some ''TOMCAT'') (Some ''a'') ?s = (Inr h, ?s) \<and>
      getId h = ''a'' \<and> workspaceUri h = ''/ws''"
    using createApplication_outcomes[where s = ?s and u = "''/ws''" and k = TOMCAT
        and e = ?e and t = "Some ''TOMCAT''" and i = "Some ''a''"]
    by (auto simp: ex_container_def AppTypes_tag_def)
  have 4: "\<exists>h. createApplication ?e (Some ''TOMCAT'') None ?s = (Inr h, ?s) \<and> getId h = ''App5''"
    using createApplication_outcomes[where s = ?s and u = "''/ws''" and k = TOMCAT
        and e = ?e and t = "Some ''TOMCAT''" and i = None]
    by (auto simp: ex_container_def AppTypes_tag_def ex_env_def show_nat_digit)
  from 1 2 3 4 show ?thesis by blast
qed

text \<open>
  The claim as it was stated binds the handle to the supplied id whenever one is
  supplied, and lets an unregistered kind fail with NoValidAppType whatever the
  workspace. Supplying the empty string yields a handle with a generated id, and an
  unregistered kind before \<^verbatim>\<open>initialize\<close> fails with NotFoundWorkspace.
\<close>

theorem createApplication_empty_id_counterexample:
  "map_sum (\<lambda>err. err) getId
     (fst (createApplication (ex_env [] [] True) (Some ''TOMCAT'') (Some []) (ex_container [])))
   = Inr ''App5'' \<and>
   fst (createApplication (ex_env [] [] True) (Some ''UNKNOWN'') (Some ''a'')
          ((ex_container [])\<lparr>uri := None\<rparr>))
   = Inl (new_ApplicationError NotFoundWorkspace)"
  by (simp add: createApplication_def ex_container_def ex_env_def findClassModule_def Let_def
        new_App_def getId_def show_nat_digit)

text \<open>
  Claim C8. Starting from an empty cache, after any sequence of calls of the
  operations of the container (with any arguments: lists of handles that repeat an
  id, persisted lists that repeat an id, collaborators that fail) no two handles in the
  cache have the same id.
\<close>

theorem run_ops_distinct_ids:
  "cache s = [] \<Longrightarrow> distinct (map getId (cache (run_ops s ops)))"
proof -
  have "distinct (map getId (cache s)) \<Longrightarrow> distinct (map getId (cache (foldl run_op s ops)))" for s
  proof (induction ops arbitrary: s)
    case Nil then show ?case by simp
  next
    case (Cons x ops)
    from Cons.IH[OF run_op_distinct[OF Cons.prems, of x]] show ?case by simp
  qed
  then show "cache s = [] \<Longrightarrow> distinct (map getId (cache (run_ops s ops)))"
    by (simp add: run_ops_def)
qed


theorem run_ops_distinct_ids_witness:
  "cache (ex_container []) = [] \<and>
   distinct (map getId (cache (run_ops (ex_container [])
     [OpSetAppsToContainer [ex_handle ''a'' 1, ex_handle ''a'' 2],
      OpLoadFromConfigurations
        (ex_env [ex_config ''b'' ''/srv'' [], ex_config ''b'' ''/opt'' [], ex_config ''a'' ''/srv'' []] [] True)
        False]))) \<and>
   map getId (cache (run_ops (ex_container [])
     [OpSetAppsToContainer [ex_handle ''a'' 1, ex_handle ''a'' 2],
      OpLoadFromConfigurations
        (ex_env [ex_config ''b'' ''/srv'' [], ex_config ''b'' ''/opt'' [], ex_config ''a'' ''/srv'' []] [] True)
        False])) = [''a'', ''b'']"
proof -
  have "map getId (cache (run_ops (ex_container [])
     [OpSetAppsToContainer [ex_handle ''a'' 1, ex_handle ''a'' 2],
      OpLoadFromConfigurations
        (ex_env [ex_config ''b'' ''/srv'' [], ex_config ''b'' ''/opt'' [], ex_config ''a'' ''/srv'' []] [] True)
        False])) = [''a'', ''b'']"
    by (simp add: run_ops_def ex_simps)
  moreover have "cache (ex_container []) = []" by (simp add: ex_container_def)
  ultimately show ?thesis
    using run_ops_distinct_ids[of "ex_container []"
      "[OpSetAppsToContainer [ex_handle ''a'' 1, ex_handle ''a'' 2],
        OpLoadFromConfigurations
          (ex_env [ex_config ''b'' ''/srv'' [], ex_config ''b'' ''/opt'' [], ex_config ''a'' ''/srv'' []] [] True)
          False]"]
    by simp
qed

text \<open>
  Claim C9. The text of an \<^verbatim>\<open>ApplicationError\<close> is a function of its fields \<^verbatim>\<open>msg\<close> and
  \<^verbatim>\<open>code\<close> (and of the message table): when the code is present (a non-empty string)
  and registered, it is the code's message, followed by the \<^verbatim>\<open>msg\<close> in parentheses when
  \<^verbatim>\<open>msg\<close> is not empty; otherwise, when \<^verbatim>\<open>msg\<close> is a registered code, it is the message
  of \<^verbatim>\<open>msg\<close>; otherwise it is \<^verbatim>\<open>msg\<close> itself.
\<close>

theorem toString_rendering:
  "(code e = Some c \<and> c \<noteq> [] \<and> existsCode c \<longrightarrow>
      toString existsCode getMessage e
        = getMessage c @ (if msg e \<noteq> [] then '' ('' @ msg e @ '')'' else [])) \<and>
   (\<not> (\<exists>c. code e = Some c \<and> c \<noteq> [] \<and> existsCode c) \<and> existsCode (msg e) \<longrightarrow>
      toString existsCode getMessage e = getMessage (msg e)) \<and>
   (\<not> (\<exists>c. code e = Some c \<and> c \<noteq> [] \<and> existsCode c) \<and> \<not> existsCode (msg e) \<longrightarrow>
      toString existsCode getMessage e = msg e) \<and>
   (msg e' = msg e \<and> code e' = code e \<longrightarrow>
      toString existsCode getMessage e' = toString existsCode getMessage e)"
  by (auto simp: toString_def Let_def split: option.splits)

theorem toString_rendering_witness:
  "toString (\<lambda>c. c = NotFound) (\<lambda>c. ''Not found'') \<lparr>msg = ''app1'', code = Some NotFound\<rparr> = ''Not found (app1)'' \<and>
   toString (\<lambda>c. c = NotFound) (\<lambda>c. ''Not found'') \<lparr>msg = [], code = Some NotFound\<rparr> = ''Not found'' \<and>
   toString (\<lambda>c. c = NotFound) (\<lambda>c. ''Not found'') (new_ApplicationError NotFound) = ''Not found'' \<and>
   toString (\<lambda>c. c = NotFound) (\<lambda>c. ''Not found'') \<lparr>msg = ''boom'', code = Some ''E_XX''\<rparr> = ''boom''"
  using toString_rendering[where e = "\<lparr>msg = ''app1'', code = Some NotFound\<rparr>" and c = NotFound
      and e' = "\<lparr>msg = ''app1'', code = Some NotFound\<rparr>"
      and existsCode = "\<lambda>c. c = NotFound" and getMessage = "\<lambda>c. ''Not found''"]
    toString_rendering[where e = "\<lparr>msg = [], code = Some NotFound\<rparr>" and c = NotFound
      and e' = "\<lparr>msg = [], code = Some NotFound\<rparr>"
      and existsCode = "\<lambda>c. c = NotFound" and getMessage = "\<lambda>c. ''Not found''"]
    toString_rendering[where e = "new_ApplicationError NotFound" and c = NotFound
      and e' = "new_ApplicationError NotFound"
      and existsCode = "\<lambda>c. c = NotFound" and getMessage = "\<lambda>c. ''Not found''"]
    toString_rendering[where e = "\<lparr>msg = ''boom'', code = Some ''E_XX''\<rparr>" and c = NotFound
      and e' = "\<lparr>msg = ''boom'', code = Some ''E_XX''\<rparr>"
      and existsCode = "\<lambda>c. c = NotFound" and getMessage = "\<lambda>c. ''Not found''"]
  by (simp add: new_ApplicationError_def NotFound_def)

text \<open>
  Claim C10. When reading the persisted configuration fails, \<^verbatim>\<open>loadFromConfigurations\<close>
  fails with the error of the read and leaves the container, and so its cache, as it
  was, also when called with \<^verbatim>\<open>exactly = true\<close>: line 129 clears the cache only after
  the read of line 128 has returned.
\<close>

theorem loadFromConfigurations_read_failure:
  "readConfigFile e = Inl err \<Longrightarrow> loadFromConfigurations e exactly s = (Inl err, s)"
  by (simp add: loadFromConfigurations_def)

theorem loadFromConfigurations_read_failure_witness:
  "readConfigFile ex_env_unreadable = Inl (new_ApplicationError InaccessibleResources) \<and>
   loadFromConfigurations ex_env_unreadable True (ex_container [ex_handle ''a'' 8080])
     = (Inl (new_ApplicationError InaccessibleResources), ex_container [ex_handle ''a'' 8080]) \<and>
   cache (ex_container [ex_handle ''a'' 8080]) \<noteq> []"
  using loadFromConfigurations_read_failure[of ex_env_unreadable
      "new_ApplicationError InaccessibleResources" True "ex_container [ex_handle ''a'' 8080]"]
  by (simp add: ex_env_unreadable_def ex_env_def ex_container_def)

end
